theory Spec2Isabelle
  imports Complex_Main
begin

section \<open>JavaScript numbers\<close>

text \<open>
  The picker computes with JavaScript numbers.  A number is modelled as an exact rational,
  or one of the three non-finite values.  Two idealisations are made: finite arithmetic is
  exact (no binary rounding, no overflow), and negative zero is identified with zero, so a
  division by zero takes its sign from the dividend alone.  The code computes in doubles,
  where a quotient and a product are rounded: there \<open>3 * 0.1\<close> is \<open>0.30000000000000004\<close>,
  and \<open>52 / 20.8\<close> is \<open>2.5\<close> although the double nearest to \<open>20.8\<close> is a little larger.
  The theorems on \<open>scrollFix\<close> are therefore stated in the operations (\<open>js_div\<close>,
  \<open>js_mul\<close>, \<open>js_round\<close>) and their proofs do not unfold these; only the sample inputs
  evaluate them, at values where the doubles give the same.
\<close>

datatype jsnum = Fin rat | PInf | NInf | NaN

text \<open>The operator \<open>*\<close>.\<close>

fun js_mul :: "jsnum \<Rightarrow> jsnum \<Rightarrow> jsnum" where
  "js_mul NaN _ = NaN"
| "js_mul _ NaN = NaN"
| "js_mul (Fin a) (Fin b) = Fin (a * b)"
| "js_mul (Fin a) PInf = (if a = 0 then NaN else if 0 < a then PInf else NInf)"
| "js_mul (Fin a) NInf = (if a = 0 then NaN else if 0 < a then NInf else PInf)"
| "js_mul PInf (Fin b) = (if b = 0 then NaN else if 0 < b then PInf else NInf)"
| "js_mul NInf (Fin b) = (if b = 0 then NaN else if 0 < b then NInf else PInf)"
| "js_mul PInf PInf = PInf"
| "js_mul PInf NInf = NInf"
| "js_mul NInf PInf = NInf"
| "js_mul NInf NInf = PInf"

text \<open>The operator \<open>/\<close>: a division by zero gives an infinity, or NaN for \<open>0 / 0\<close>.\<close>

fun js_div :: "jsnum \<Rightarrow> jsnum \<Rightarrow> jsnum" where
  "js_div NaN _ = NaN"
| "js_div _ NaN = NaN"
| "js_div (Fin a) (Fin b) =
     (if b = 0 then (if a = 0 then NaN else if 0 < a then PInf else NInf) else Fin (a / b))"
| "js_div (Fin a) PInf = Fin 0"
| "js_div (Fin a) NInf = Fin 0"
| "js_div PInf (Fin b) = (if 0 \<le> b then PInf else NInf)"
| "js_div NInf (Fin b) = (if 0 \<le> b then NInf else PInf)"
| "js_div PInf PInf = NaN"
| "js_div PInf NInf = NaN"
| "js_div NInf PInf = NaN"
| "js_div NInf NInf = NaN"

text \<open>The binary operator \<open>-\<close>.\<close>

fun js_sub :: "jsnum \<Rightarrow> jsnum \<Rightarrow> jsnum" where
  "js_sub NaN _ = NaN"
| "js_sub _ NaN = NaN"
| "js_sub (Fin a) (Fin b) = Fin (a - b)"
| "js_sub (Fin a) PInf = NInf"
| "js_sub (Fin a) NInf = PInf"
| "js_sub PInf (Fin b) = PInf"
| "js_sub NInf (Fin b) = NInf"
| "js_sub PInf PInf = NaN"
| "js_sub PInf NInf = PInf"
| "js_sub NInf PInf = NInf"
| "js_sub NInf NInf = NaN"

text \<open>\<open>Math.round\<close>: the nearest integer, a tie going up.\<close>

fun js_round :: "jsnum \<Rightarrow> jsnum" where
  "js_round (Fin a) = Fin (of_int \<lfloor>a + 1 / 2\<rfloor>)"
| "js_round PInf = PInf"
| "js_round NInf = NInf"
| "js_round NaN = NaN"

text \<open>The order of the numbers other than NaN.\<close>

fun js_le :: "jsnum \<Rightarrow> jsnum \<Rightarrow> bool" where
  "js_le NaN _ = False"
| "js_le _ NaN = False"
| "js_le NInf _ = True"
| "js_le _ PInf = True"
| "js_le (Fin a) (Fin b) = (a \<le> b)"
| "js_le (Fin a) NInf = False"
| "js_le PInf (Fin b) = False"
| "js_le PInf NInf = False"

text \<open>\<open>Math.max\<close> and \<open>Math.min\<close> of two arguments: NaN if either is NaN.\<close>

definition js_max :: "jsnum \<Rightarrow> jsnum \<Rightarrow> jsnum" where
  "js_max a b = (if a = NaN \<or> b = NaN then NaN else if js_le a b then b else a)"

definition js_min :: "jsnum \<Rightarrow> jsnum \<Rightarrow> jsnum" where
  "js_min a b = (if a = NaN \<or> b = NaN then NaN else if js_le a b then a else b)"

text \<open>The operator \<open>===\<close> on numbers: NaN equals nothing, itself included.\<close>

definition js_strict_eq :: "jsnum \<Rightarrow> jsnum \<Rightarrow> bool" where
  "js_strict_eq a b = (a \<noteq> NaN \<and> b \<noteq> NaN \<and> a = b)"

text \<open>Truthiness of a number, as \<open>||\<close> and \<open>&&\<close> test it: zero and NaN are falsy.\<close>

definition js_truthy :: "jsnum \<Rightarrow> bool" where
  "js_truthy a = (a \<noteq> NaN \<and> a \<noteq> Fin 0)"

text \<open>
  Reading \<open>data[i]\<close>: the element when \<open>i\<close> is an integer index of the array, and
  \<open>undefined\<close> (here \<open>None\<close>) for every other number; nothing is raised.
\<close>

fun data_at :: "'a list \<Rightarrow> jsnum \<Rightarrow> 'a option" where
  "data_at xs (Fin q) =
     (if of_int \<lfloor>q\<rfloor> = q \<and> 0 \<le> q \<and> nat \<lfloor>q\<rfloor> < length xs then Some (xs ! nat \<lfloor>q\<rfloor>) else None)"
| "data_at xs PInf = None"
| "data_at xs NInf = None"
| "data_at xs NaN = None"

section \<open>Index clamping\<close>

text \<open>\<open>constrainIndex(index, dataLength)\<close>; an absent index (\<open>undefined\<close>) is \<open>None\<close>.\<close>

definition constrainIndex :: "jsnum option \<Rightarrow> jsnum \<Rightarrow> jsnum" where
  "constrainIndex index dataLength =
     js_max (Fin 0)
       (js_min (case index of None \<Rightarrow> Fin 0 | Some i \<Rightarrow> i) (js_sub dataLength (Fin 1)))"

section \<open>Props, host and component state\<close>

text \<open>
  A scroll event of the host.  Its declared type always carries \<open>contentOffset.y\<close>; both
  revisions nevertheless guard against a missing part, so the event is modelled with an
  optional \<open>contentOffset\<close> whose \<open>y\<close> is optional too.
\<close>

datatype contentOffset = ContentOffset (offset_y: "jsnum option")

datatype scroll_event = NativeEvent (contentOffset: "contentOffset option")

text \<open>The event the host sends when the content is at offset \<open>v\<close>.\<close>

definition event_at :: "jsnum \<Rightarrow> scroll_event" where
  "event_at v = NativeEvent (Some (ContentOffset (Some v)))"

text \<open>
  A value of a style attribute, and the \<open>style\<close> prop: either something that is not an
  object with own keys of a style (\<open>undefined\<close>, \<open>null\<close>, \<open>false\<close>, a registered style
  number), or an object, of which only the \<open>height\<close> entry matters here: \<open>None\<close> when the
  object has no key \<open>height\<close> (an array of styles is such an object).
\<close>

datatype jsval = VNumber jsnum | VString string | VUndefined | VObject

datatype style_prop = NotAnObject | StyleObject (height_entry: "jsval option")

text \<open>
  The props after the defaults of the parameter list are applied (\<open>itemHeight = 30\<close>,
  \<open>data = []\<close>, \<open>changeValueWhileDragging = true\<close>).  \<open>onValueChange\<close> records whether the
  owner supplied the callback; the older revision has no \<open>changeValueWhileDragging\<close> and
  ignores the field.
\<close>

record 'a props =
  data :: "'a list"
  itemHeight :: jsnum
  selectedIndexProp :: "jsnum option"
  onValueChange :: bool
  containerHeight :: "jsnum option"
  style :: style_prop
  changeValueWhileDragging :: bool

text \<open>
  What the component reads from its host: the platform, whether the ref \<open>sView.current\<close>
  holds the scroll view, and the built-in conversions \<open>Number(str)\<close> and \<open>parseFloat(str)\<close>.
\<close>

record host =
  ios :: bool
  sView_current :: bool
  toNumber :: "string \<Rightarrow> jsnum"
  parseFloat :: "string \<Rightarrow> jsnum"

text \<open>
  The callback handed to \<open>setTimeout\<close> by \<open>onScrollEndDrag\<close> closes over the render in
  which it was created: over \<open>momentumStarted\<close>, over \<open>scrollFix\<close> (and through it over
  \<open>selectedIndex\<close>) and over the copied event.
\<close>

record closure =
  c_momentumStarted :: bool
  c_selectedIndex :: jsnum
  c_event :: scroll_event

text \<open>
  The state hooks of the component, together with the timer table of the host:
  \<open>pending\<close> lists the timeouts that were set and have neither fired nor been cleared.
\<close>

record state =
  selectedIndex :: jsnum
  isScrollTo :: bool
  dragStarted :: bool
  momentumStarted :: bool
  timer :: "nat option"
  initialized :: bool
  pending :: "(nat \<times> closure) list"
  nextTimer :: nat

datatype error = TypeError

text \<open>
  What a handler does to the outside: \<open>sView.current.scrollTo({y, animated})\<close> (with
  \<open>animated\<close> absent when the call does not pass it), a call of the owner's
  \<open>onValueChange({value, index})\<close> (an out-of-range \<open>value\<close> is \<open>undefined\<close>, here \<open>None\<close>),
  or an exception that escapes the handler.
\<close>

datatype 'a effect =
    ScrollTo jsnum "bool option"
  | ValueChange "'a option" jsnum
  | Uncaught error

fun is_ScrollTo :: "'a effect \<Rightarrow> bool" where
  "is_ScrollTo (ScrollTo _ _) = True"
| "is_ScrollTo _ = False"

fun is_ValueChange :: "'a effect \<Rightarrow> bool" where
  "is_ValueChange (ValueChange _ _) = True"
| "is_ValueChange _ = False"

text \<open>\<open>sView.current?.scrollTo(...)\<close> and \<open>p.onValueChange?.(...)\<close>.\<close>

definition sView_scrollTo :: "host \<Rightarrow> jsnum \<Rightarrow> bool option \<Rightarrow> 'a effect list" where
  "sView_scrollTo H v animated = (if sView_current H then [ScrollTo v animated] else [])"

definition call_onValueChange :: "'a props \<Rightarrow> jsnum \<Rightarrow> 'a effect list" where
  "call_onValueChange p i = (if onValueChange p then [ValueChange (data_at (data p) i) i] else [])"

text \<open>The initial state: \<open>useState(constrainIndex(p.selectedIndex, data.length))\<close>.\<close>

definition initial_state :: "'a props \<Rightarrow> state" where
  "initial_state p =
     \<lparr>selectedIndex = constrainIndex (selectedIndexProp p) (Fin (of_nat (length (data p)))),
      isScrollTo = False, dragStarted = False, momentumStarted = False, timer = None,
      initialized = False, pending = [], nextTimer = 1\<rparr>"

section \<open>scrollFix\<close>

text \<open>
  \<open>scrollFix\<close> of src/index.tsx.  A state setter changes the current state \<open>s\<close>, while
  \<open>sel\<close> is the \<open>selectedIndex\<close> that the callback closed over (the one of the render
  that created it).  An absent \<open>y\<close> (\<open>undefined\<close>) behaves in the arithmetic and under
  \<open>!==\<close> as NaN does, so \<open>y\<close> is a \<open>jsnum\<close> here.
\<close>

definition scrollFix ::
  "host \<Rightarrow> 'a props \<Rightarrow> jsnum \<Rightarrow> scroll_event \<Rightarrow> state \<Rightarrow> state \<times> 'a effect list" where
  "scrollFix H p sel e s =
     (let y = (case contentOffset e of
                 None \<Rightarrow> Fin 0
               | Some off \<Rightarrow> (case offset_y off of None \<Rightarrow> NaN | Some w \<Rightarrow> w));
          h = itemHeight p;
          i = js_round (js_div y h);
          y' = js_mul i h;
          (s1, fx1) =
            (if \<not> js_strict_eq y' y
             then ((if ios H then s\<lparr>isScrollTo := True\<rparr> else s), sView_scrollTo H y' None)
             else (s, []))
      in if js_strict_eq sel i then (s1, fx1)
         else (s1\<lparr>selectedIndex := i\<rparr>, fx1 @ call_onValueChange p i))"

text \<open>
  \<open>scrollFix\<close> of the newer revision (src/unnamed/part\_000), with its parameter
  \<open>setScrollTo\<close>.  Reading \<open>.y\<close> of a missing \<open>contentOffset\<close> raises before anything is
  done; an absent \<open>y\<close> is replaced by \<open>0\<close>.
\<close>

definition scrollFix2 ::
  "host \<Rightarrow> 'a props \<Rightarrow> jsnum \<Rightarrow> scroll_event \<Rightarrow> bool \<Rightarrow> state
     \<Rightarrow> error + state \<times> 'a effect list" where
  "scrollFix2 H p sel e setScrollTo s =
     (case contentOffset e of
        None \<Rightarrow> Inl TypeError
      | Some off \<Rightarrow>
          (let y = (case offset_y off of None \<Rightarrow> Fin 0 | Some w \<Rightarrow> w);
               h = itemHeight p;
               i = js_round (js_div y h);
               (s1, fx1) =
                 (if setScrollTo
                  then (let y' = js_mul i h in
                        if \<not> js_strict_eq y' y
                        then ((if ios H then s\<lparr>isScrollTo := True\<rparr> else s),
                              sView_scrollTo H y' None)
                        else (s, []))
                  else (s, []))
           in if js_strict_eq sel i then Inr (s1, fx1)
              else Inr (s1\<lparr>selectedIndex := i\<rparr>, fx1 @ call_onValueChange p i)))"

section \<open>The handlers\<close>

text \<open>
  The handlers have the same text in both revisions and differ only in the \<open>scrollFix\<close>
  they call; the newer revision adds \<open>onScroll\<close> and the press handler of a row.
\<close>

datatype revision = Index_tsx | Part_000

text \<open>
  A call \<open>scrollFix(e)\<close> made by a handler; in the newer revision \<open>setScrollTo\<close> takes its
  default \<open>true\<close>, and an exception leaves the handler.
\<close>

definition call_scrollFix ::
  "revision \<Rightarrow> host \<Rightarrow> 'a props \<Rightarrow> jsnum \<Rightarrow> scroll_event \<Rightarrow> state \<Rightarrow> state \<times> 'a effect list" where
  "call_scrollFix rv H p sel e s =
     (case rv of
        Index_tsx \<Rightarrow> scrollFix H p sel e s
      | Part_000 \<Rightarrow>
          (case scrollFix2 H p sel e True s of
             Inl err \<Rightarrow> (s, [Uncaught err])
           | Inr r \<Rightarrow> r))"

text \<open>The timer functions of the host.\<close>

definition clearTimeout :: "nat \<Rightarrow> state \<Rightarrow> state" where
  "clearTimeout i s = s\<lparr>pending := filter (\<lambda>(j, c). j \<noteq> i) (pending s)\<rparr>"

definition setTimeout :: "closure \<Rightarrow> state \<Rightarrow> nat \<times> state" where
  "setTimeout c s =
     (nextTimer s, s\<lparr>pending := pending s @ [(nextTimer s, c)], nextTimer := Suc (nextTimer s)\<rparr>)"

text \<open>\<open>timer && clearTimeout(timer)\<close>, on the \<open>timer\<close> of the current render.\<close>

definition clear_timer :: "state \<Rightarrow> state" where
  "clear_timer s = (case timer s of None \<Rightarrow> s | Some i \<Rightarrow> clearTimeout i s)"

definition onScrollBeginDrag :: "host \<Rightarrow> state \<Rightarrow> state" where
  "onScrollBeginDrag H s =
     (let s1 = s\<lparr>dragStarted := True\<rparr>;
          s2 = (if ios H then s1\<lparr>isScrollTo := False\<rparr> else s1)
      in clear_timer s2)"

text \<open>The callback \<open>() => !momentumStarted && scrollFix(_e)\<close>, run when the timeout fires.\<close>

definition timer_callback ::
  "revision \<Rightarrow> host \<Rightarrow> 'a props \<Rightarrow> closure \<Rightarrow> state \<Rightarrow> state \<times> 'a effect list" where
  "timer_callback rv H p c s =
     (if \<not> c_momentumStarted c then call_scrollFix rv H p (c_selectedIndex c) (c_event c) s
      else (s, []))"

definition onScrollEndDrag :: "scroll_event \<Rightarrow> state \<Rightarrow> state" where
  "onScrollEndDrag e s =
     (let s1 = s\<lparr>dragStarted := False\<rparr>;
          s2 = clear_timer s1;
          (i, s3) = setTimeout \<lparr>c_momentumStarted = momentumStarted s,
                                c_selectedIndex = selectedIndex s, c_event = e\<rparr> s2
      in s3\<lparr>timer := Some i\<rparr>)"

definition onMomentumScrollBegin :: "state \<Rightarrow> state" where
  "onMomentumScrollBegin s = clear_timer (s\<lparr>momentumStarted := True\<rparr>)"

definition onMomentumScrollEnd ::
  "revision \<Rightarrow> host \<Rightarrow> 'a props \<Rightarrow> scroll_event \<Rightarrow> state \<Rightarrow> state \<times> 'a effect list" where
  "onMomentumScrollEnd rv H p e s =
     (let s1 = s\<lparr>momentumStarted := False\<rparr> in
      if \<not> isScrollTo s \<and> \<not> dragStarted s then call_scrollFix rv H p (selectedIndex s) e s1
      else (s1, []))"

text \<open>\<open>onScroll\<close> of the newer revision: \<open>scrollFix(e, false)\<close>.\<close>

definition onScroll ::
  "host \<Rightarrow> 'a props \<Rightarrow> scroll_event \<Rightarrow> state \<Rightarrow> state \<times> 'a effect list" where
  "onScroll H p e s =
     (case scrollFix2 H p (selectedIndex s) e False s of
        Inl err \<Rightarrow> (s, [Uncaught err])
      | Inr r \<Rightarrow> r)"

text \<open>\<open>scrollToIndex({index, animated})\<close> of the newer revision.\<close>

definition scrollToIndex :: "host \<Rightarrow> 'a props \<Rightarrow> jsnum \<Rightarrow> bool \<Rightarrow> 'a effect list" where
  "scrollToIndex H p index animated =
     (let y = js_mul (itemHeight p) index in sView_scrollTo H y (Some animated))"

text \<open>
  The effect \<open>initialize\<close>, which runs after a render and does its work once.  The two
  revisions issue the same \<open>scrollTo\<close>, the newer one through \<open>scrollToIndex\<close>.
\<close>

definition initialize :: "host \<Rightarrow> 'a props \<Rightarrow> state \<Rightarrow> state \<times> 'a effect list" where
  "initialize H p s =
     (if initialized s then (s, [])
      else (s\<lparr>initialized := True\<rparr>,
            (if selectedIndexProp p \<noteq> None
                \<and> \<not> js_strict_eq (case selectedIndexProp p of None \<Rightarrow> NaN | Some i \<Rightarrow> i)
                                    (selectedIndex s)
             then call_onValueChange p (selectedIndex s) else [])
            @ scrollToIndex H p (selectedIndex s) False))"

section \<open>The component as a transition system\<close>

text \<open>
  What can happen to a mounted picker: the five scroll events of the host, the firing of a
  pending timeout, a press on the row of an index, and the run of the effects after a
  render.  Each handler runs against the state of the latest render, that is, the
  component re-renders between two events; only the timeout's callback keeps the values
  of the render that created it.
\<close>

datatype event =
    ScrollBeginDrag
  | ScrollEndDrag scroll_event
  | MomentumScrollBegin
  | MomentumScrollEnd scroll_event
  | Scroll scroll_event
  | TimerFire nat
  | Press nat
  | RunEffects

text \<open>
  The older revision registers neither \<open>onScroll\<close> nor a press handler, and the newer one
  registers \<open>onScroll\<close> only under \<open>changeValueWhileDragging\<close>; only a rendered row can be
  pressed.  A timeout fires only while it is pending, and leaves the table when it does.
\<close>

fun step ::
  "revision \<Rightarrow> host \<Rightarrow> 'a props \<Rightarrow> event \<Rightarrow> state \<Rightarrow> state \<times> 'a effect list" where
  "step rv H p ScrollBeginDrag s = (onScrollBeginDrag H s, [])"
| "step rv H p (ScrollEndDrag e) s = (onScrollEndDrag e s, [])"
| "step rv H p MomentumScrollBegin s = (onMomentumScrollBegin s, [])"
| "step rv H p (MomentumScrollEnd e) s = onMomentumScrollEnd rv H p e s"
| "step rv H p (Scroll e) s =
     (if rv = Part_000 \<and> changeValueWhileDragging p then onScroll H p e s else (s, []))"
| "step rv H p (TimerFire i) s =
     (case map_of (pending s) i of
        None \<Rightarrow> (s, [])
      | Some c \<Rightarrow> timer_callback rv H p c (clearTimeout i s))"
| "step rv H p (Press index) s =
     (if rv = Part_000 \<and> index < length (data p)
      then (s, scrollToIndex H p (Fin (of_nat index)) True) else (s, []))"
| "step rv H p RunEffects s = initialize H p s"

text \<open>A run from a state: the final state and everything done on the way, in order.\<close>

fun run ::
  "revision \<Rightarrow> host \<Rightarrow> 'a props \<Rightarrow> event list \<Rightarrow> state \<Rightarrow> state \<times> 'a effect list" where
  "run rv H p [] s = (s, [])"
| "run rv H p (ev # evs) s =
     (let (s1, fx1) = step rv H p ev s;
          (s2, fx2) = run rv H p evs s1
      in (s2, fx1 @ fx2))"

text \<open>
  The invariant behind the single timer: a pending timeout is the one the \<open>timer\<close> state
  names, no handle is pending twice, and while momentum is on, a pending callback was
  created with \<open>momentumStarted\<close> set.
\<close>

definition timer_inv :: "state \<Rightarrow> bool" where
  "timer_inv s =
     ((\<forall>(i, c) \<in> set (pending s). timer s = Some i \<and> (momentumStarted s \<longrightarrow> c_momentumStarted c))
      \<and> distinct (map fst (pending s)))"

section \<open>Sizes and rendering\<close>

text \<open>The global \<open>isNaN\<close> applied to a number, and \<open>Number(v)\<close>.\<close>

definition js_isNaN :: "jsnum \<Rightarrow> bool" where
  "js_isNaN a = (a = NaN)"

text \<open>
  \<open>Number\<close> is applied to a style height only after \<open>isNumeric\<close> accepted it, that is to
  a number or a string; the other two cases are there to make the function total.
\<close>

fun js_Number :: "host \<Rightarrow> jsval \<Rightarrow> jsnum" where
  "js_Number H (VNumber a) = a"
| "js_Number H (VString t) = toNumber H t"
| "js_Number H VUndefined = NaN"
| "js_Number H VObject = NaN"

fun isNumeric :: "host \<Rightarrow> jsval \<Rightarrow> bool" where
  "isNumeric H (VNumber a) = True"
| "isNumeric H (VString t) = (\<not> js_isNaN (toNumber H t) \<and> \<not> js_isNaN (parseFloat H t))"
| "isNumeric H VUndefined = False"
| "isNumeric H VObject = False"

fun isViewStyle :: "style_prop \<Rightarrow> bool" where
  "isViewStyle NotAnObject = False"
| "isViewStyle (StyleObject entry) = (entry \<noteq> None)"

text \<open>\<open>p.style.height\<close>: the entry, and \<open>undefined\<close> where there is none.\<close>

fun style_height :: "style_prop \<Rightarrow> jsval" where
  "style_height (StyleObject (Some v)) = v"
| "style_height _ = VUndefined"

text \<open>The operator \<open>||\<close> with a number on its left.\<close>

definition js_or :: "jsnum \<Rightarrow> jsnum \<Rightarrow> jsnum" where
  "js_or a b = (if js_truthy a then a else b)"

definition wrapperHeight :: "host \<Rightarrow> 'a props \<Rightarrow> jsnum" where
  "wrapperHeight H p =
     (let rest =
        js_or (if isViewStyle (style p) \<and> isNumeric H (style_height (style p))
               then js_Number H (style_height (style p)) else Fin 0)
              (js_mul (itemHeight p) (Fin 5))
      in case containerHeight p of None \<Rightarrow> rest | Some c \<Rightarrow> js_or c rest)"

text \<open>
  What \<open>renderItem(item, index)\<close> fixes of a row: the flag handed to the owner's
  \<open>renderItem\<close> (or used to pick the text style), and the height of the wrapper.
\<close>

record 'a row =
  row_item :: 'a
  row_index :: nat
  isSelected :: bool
  row_height :: jsnum

definition renderItem :: "'a props \<Rightarrow> state \<Rightarrow> 'a \<Rightarrow> nat \<Rightarrow> 'a row" where
  "renderItem p s item index =
     \<lparr>row_item = item, row_index = index,
      isSelected = js_strict_eq (Fin (of_nat index)) (selectedIndex s),
      row_height = itemHeight p\<rparr>"

text \<open>\<open>data.map(renderItem)\<close>.\<close>

definition render_rows :: "'a props \<Rightarrow> state \<Rightarrow> 'a row list" where
  "render_rows p s =
     map (\<lambda>(index, item). renderItem p s item index) (zip [0 ..< length (data p)] (data p))"

text \<open>The height of the view that \<open>verticalSpacing()\<close> returns.\<close>

definition verticalSpacing :: "host \<Rightarrow> 'a props \<Rightarrow> jsnum" where
  "verticalSpacing H p = js_div (js_sub (wrapperHeight H p) (itemHeight p)) (Fin 2)"

text \<open>The vertical frame of \<open>highlightStyle\<close>; its width and border do not bear on it.\<close>

record frame =
  frame_top :: jsnum
  frame_height :: jsnum

definition highlightStyle :: "host \<Rightarrow> 'a props \<Rightarrow> frame" where
  "highlightStyle H p =
     \<lparr>frame_top = js_div (js_sub (wrapperHeight H p) (itemHeight p)) (Fin 2),
      frame_height = itemHeight p\<rparr>"

text \<open>
  The host stacks the children of the scroll content: a child starts where the one before
  it ends, and is shown shifted up by the scroll offset.  The content is the spacer, the
  rows, and the spacer again.  These sizes are finite in a laid-out view.
\<close>

fun child_tops :: "rat \<Rightarrow> rat list \<Rightarrow> rat list" where
  "child_tops t [] = []"
| "child_tops t (h # hs) = t # child_tops (t + h) hs"

definition content_heights :: "rat \<Rightarrow> rat \<Rightarrow> nat \<Rightarrow> rat list" where
  "content_heights spacer h n = spacer # replicate n h @ [spacer]"

definition row_on_screen :: "rat \<Rightarrow> rat \<Rightarrow> nat \<Rightarrow> nat \<Rightarrow> rat \<Rightarrow> frame" where
  "row_on_screen spacer h n k offset =
     \<lparr>frame_top = Fin (child_tops 0 (content_heights spacer h n) ! Suc k - offset),
      frame_height = Fin (content_heights spacer h n ! Suc k)\<rparr>"

section \<open>Sample inputs\<close>

text \<open>
  A picker of three rows of height 30 on iOS, whose owner listens to changes; the sample
  host reads the strings \<open>120\<close> and \<open>0\<close> as numbers and any other string as NaN.
\<close>

definition sample_number :: "string \<Rightarrow> jsnum" where
  "sample_number t =
     (if t = ''120'' then Fin 120 else if t = ''0'' then Fin 0 else NaN)"

definition sample_host :: host where
  "sample_host =
     \<lparr>ios = True, sView_current = True, toNumber = sample_number, parseFloat = sample_number\<rparr>"

definition sample_props :: "string props" where
  "sample_props =
     \<lparr>data = [''a'', ''b'', ''c''], itemHeight = Fin 30, selectedIndexProp = None,
      onValueChange = True, containerHeight = None, style = NotAnObject,
      changeValueWhileDragging = True\<rparr>"

section \<open>Evaluating the rounding\<close>

lemma floor_numeral_div_rat [simp]:
  "\<lfloor>(numeral a :: rat) / numeral b\<rfloor> = numeral a div numeral b"
  using floor_divide_of_int_eq [of "numeral a" "numeral b", where ?'a = rat] by simp

lemma floor_neg_numeral_div_rat [simp]:
  "\<lfloor>- (numeral a :: rat) / numeral b\<rfloor> = - numeral a div numeral b"
  using floor_divide_of_int_eq [of "- numeral a" "numeral b", where ?'a = rat] by simp

section \<open>Index clamping at mount\<close>







section \<open>The two revisions of scrollFix\<close>

lemma scrollFix2_True:
  "scrollFix2 H p sel (event_at y) True s = Inr (scrollFix H p sel (event_at y) s)"
  by (simp add: scrollFix2_def scrollFix_def event_at_def Let_def)

text \<open>
  The revisions part ways only on an event outside the declared type: without
  \<open>contentOffset\<close> the older one takes the offset \<open>0\<close> and the newer one raises.
\<close>

lemma scrollFix2_no_contentOffset:
  "scrollFix2 H p sel (NativeEvent None) b s = Inl TypeError"
  by (simp add: scrollFix2_def)

text \<open>
  Claim C9.  On a scroll event with content offset \<open>y\<close>, for the same props (so the same
  \<open>itemHeight\<close>), the same \<open>selectedIndex\<close> and the same state, the newer \<open>scrollFix\<close> called
  with \<open>setScrollTo = true\<close> returns normally, and with the outcome of the older
  \<open>scrollFix\<close>: the same resulting state (resolved index, \<open>isScrollTo\<close>) and the same calls
  of \<open>scrollTo\<close> (target offset) and \<open>onValueChange\<close>, in the same order.  So the handlers
  that call \<open>scrollFix(e)\<close> do the same in both revisions.
\<close>

theorem scrollFix_revisions_agree:
  "scrollFix2 H p sel (event_at y) True s = Inr (scrollFix H p sel (event_at y) s)
   \<and> call_scrollFix Part_000 H p sel (event_at y) s
       = call_scrollFix Index_tsx H p sel (event_at y) s"
proof -
  have same: "scrollFix2 H p sel (event_at y) True s = Inr (scrollFix H p sel (event_at y) s)"
    by (simp add: scrollFix2_def scrollFix_def event_at_def Let_def)
  then have "call_scrollFix Part_000 H p sel (event_at y) s
      = call_scrollFix Index_tsx H p sel (event_at y) s"
    by (simp add: call_scrollFix_def)
  with same show ?thesis ..
qed

theorem scrollFix_revisions_agree_witness:
  "scrollFix2 sample_host sample_props (Fin 0) (event_at (Fin 50)) True
       (initial_state sample_props)
     = Inr ((initial_state sample_props)\<lparr>selectedIndex := Fin 2, isScrollTo := True\<rparr>,
            [ScrollTo (Fin 60) None, ValueChange (Some ''c'') (Fin 2)])"
  using scrollFix_revisions_agree
          [of sample_host sample_props "Fin 0" "Fin 50" "initial_state sample_props"]
  by (simp add: scrollFix_def event_at_def sample_host_def sample_props_def Let_def
        sView_scrollTo_def call_onValueChange_def js_strict_eq_def initial_state_def)

section \<open>What scrollFix does on a scroll event\<close>

text \<open>
  The outcome of \<open>scrollFix\<close> on the event at offset \<open>y\<close>, field by field: the index
  \<open>Math.round(y / h)\<close>, the row offset \<open>Math.round(y / h) * h\<close>, the calls made.
\<close>

lemma scrollFix_selectedIndex:
  "selectedIndex (fst (scrollFix H p sel (event_at y) s)) =
     (if js_strict_eq sel (js_round (js_div y (itemHeight p))) then selectedIndex s
      else js_round (js_div y (itemHeight p)))"
  by (simp add: scrollFix_def event_at_def Let_def)

lemma scrollFix_effects:
  "snd (scrollFix H p sel (event_at y) s) =
     (if \<not> js_strict_eq (js_mul (js_round (js_div y (itemHeight p))) (itemHeight p)) y
      then sView_scrollTo H (js_mul (js_round (js_div y (itemHeight p))) (itemHeight p)) None
      else [])
     @ (if js_strict_eq sel (js_round (js_div y (itemHeight p))) then []
        else call_onValueChange p (js_round (js_div y (itemHeight p))))"
  by (simp add: scrollFix_def event_at_def Let_def)

lemma scrollFix_isScrollTo:
  "isScrollTo (fst (scrollFix H p sel (event_at y) s)) =
     (if \<not> js_strict_eq (js_mul (js_round (js_div y (itemHeight p))) (itemHeight p)) y \<and> ios H
      then True else isScrollTo s)"
  by (simp add: scrollFix_def event_at_def Let_def)

lemma scrollFix2_False:
  "scrollFix2 H p sel (event_at y) False s =
     Inr (if js_strict_eq sel (js_round (js_div y (itemHeight p))) then (s, [])
          else (s\<lparr>selectedIndex := js_round (js_div y (itemHeight p))\<rparr>,
                call_onValueChange p (js_round (js_div y (itemHeight p)))))"
  by (simp add: scrollFix2_def event_at_def Let_def)

lemma filter_ValueChange_scrollTo [simp]:
  "filter is_ValueChange (sView_scrollTo H v a) = []"
  "filter is_ScrollTo (sView_scrollTo H v a) = sView_scrollTo H v a"
  by (simp_all add: sView_scrollTo_def)

lemma filter_call_onValueChange [simp]:
  "filter is_ValueChange (call_onValueChange p i) = call_onValueChange p i"
  "filter is_ScrollTo (call_onValueChange p i) = []"
  by (simp_all add: call_onValueChange_def)

text \<open>
  In exact arithmetic \<open>Math.round(y / h) * h\<close> is a multiple of \<open>h\<close> nearest to \<open>y\<close>: for a
  positive height it is at most half a row away.  This is a fact of the rationals only:
  in doubles the rounded quotient and product can miss the nearest multiple (with
  \<open>h = 20.8\<close> and \<open>y = 52\<close> the code scrolls to \<open>62.400000000000006\<close>, and \<open>2 * h\<close> is
  nearer), so no theorem on the code rests on it.
\<close>

lemma round_nearest:
  fixes yy hh :: rat
  assumes "0 < hh"
  shows "\<bar>of_int \<lfloor>yy / hh + 1 / 2\<rfloor> * hh - yy\<bar> \<le> hh / 2"
proof -
  define k :: rat where "k = of_int \<lfloor>yy / hh + 1 / 2\<rfloor>"
  have lo: "k \<le> yy / hh + 1 / 2"
    unfolding k_def by (rule of_int_floor_le)
  have hi: "yy / hh + 1 / 2 < k + 1"
    unfolding k_def using floor_correct [of "yy / hh + 1 / 2"] by simp
  have expand: "(yy / hh + 1 / 2) * hh = yy + hh / 2"
    using assms by (simp add: field_simps)
  from lo assms have "k * hh \<le> (yy / hh + 1 / 2) * hh"
    by (simp add: mult_right_mono)
  with expand have a: "k * hh \<le> yy + hh / 2" by simp
  from hi assms have "(yy / hh + 1 / 2) * hh < (k + 1) * hh"
    by (simp only: mult_strict_right_mono)
  with expand have b: "yy + hh / 2 < k * hh + hh" by (simp add: algebra_simps)
  from a b have "\<bar>k * hh - yy\<bar> \<le> hh / 2" by linarith
  then show ?thesis by (simp only: k_def)
qed

text \<open>Reading the array outside its indices gives \<open>undefined\<close>.\<close>

lemma data_at_out_of_range:
  "of_nat (length xs) \<le> q \<Longrightarrow> data_at xs (Fin q) = None"
proof -
  assume a: "of_nat (length xs) \<le> q"
  have "length xs \<le> nat \<lfloor>q\<rfloor>"
  proof -
    from a have "int (length xs) \<le> \<lfloor>q\<rfloor>" by (simp add: le_floor_iff)
    then show ?thesis by simp
  qed
  then show ?thesis by simp
qed

lemma data_at_empty: "data_at [] i = None"
  by (cases i) simp_all

lemma data_at_negative: "q < 0 \<Longrightarrow> data_at xs (Fin q) = None"
  by simp




text \<open>
  What \<open>scrollFix\<close> reports, in either revision and whatever \<open>setScrollTo\<close> is: it compares
  the resolved index with the \<open>selectedIndex\<close> it closed over.  If they are equal (\<open>===\<close>)
  it leaves \<open>selectedIndex\<close> as it is and does not call \<open>onValueChange\<close>; if they differ it
  sets \<open>selectedIndex\<close> to the resolved index and calls the owner's \<open>onValueChange\<close> (when one
  was supplied) exactly once, with the value \<open>data[index]\<close> and the index.  In a handler of
  the current render the \<open>selectedIndex\<close> closed over is the current one.
\<close>

lemma scrollFix_compares_closure:
  "(let i = js_round (js_div y (itemHeight p));
        R = scrollFix H p sel (event_at y) s
    in (js_strict_eq sel i \<longrightarrow>
          selectedIndex (fst R) = selectedIndex s \<and> filter is_ValueChange (snd R) = [])
     \<and> (\<not> js_strict_eq sel i \<longrightarrow>
          selectedIndex (fst R) = i
          \<and> (onValueChange p \<longrightarrow>
               filter is_ValueChange (snd R) = [ValueChange (data_at (data p) i) i]))
     \<and> (\<exists>R2. scrollFix2 H p sel (event_at y) setScrollTo s = Inr R2
          \<and> (js_strict_eq sel i \<longrightarrow>
                selectedIndex (fst R2) = selectedIndex s \<and> filter is_ValueChange (snd R2) = [])
          \<and> (\<not> js_strict_eq sel i \<longrightarrow>
                selectedIndex (fst R2) = i
                \<and> (onValueChange p \<longrightarrow>
                     filter is_ValueChange (snd R2) = [ValueChange (data_at (data p) i) i]))))"
proof -
  let ?i = "js_round (js_div y (itemHeight p))"
  let ?R = "scrollFix H p sel (event_at y) s"
  have old_eq: "js_strict_eq sel ?i \<Longrightarrow>
      selectedIndex (fst ?R) = selectedIndex s \<and> filter is_ValueChange (snd ?R) = []"
    by (simp add: scrollFix_selectedIndex scrollFix_effects)
  have old_ne: "\<not> js_strict_eq sel ?i \<Longrightarrow>
      selectedIndex (fst ?R) = ?i
      \<and> (onValueChange p \<longrightarrow> filter is_ValueChange (snd ?R) = [ValueChange (data_at (data p) ?i) ?i])"
    by (simp add: scrollFix_selectedIndex scrollFix_effects) (simp add: call_onValueChange_def)
  have new: "\<exists>R2. scrollFix2 H p sel (event_at y) setScrollTo s = Inr R2
          \<and> (js_strict_eq sel ?i \<longrightarrow>
                selectedIndex (fst R2) = selectedIndex s \<and> filter is_ValueChange (snd R2) = [])
          \<and> (\<not> js_strict_eq sel ?i \<longrightarrow>
                selectedIndex (fst R2) = ?i
                \<and> (onValueChange p \<longrightarrow>
                     filter is_ValueChange (snd R2) = [ValueChange (data_at (data p) ?i) ?i]))"
  proof (cases setScrollTo)
    case True
    with old_eq old_ne show ?thesis by (simp add: scrollFix2_True)
  next
    case False
    then show ?thesis by (simp add: scrollFix2_False call_onValueChange_def)
  qed
  from old_eq old_ne new show ?thesis unfolding Let_def by blast
qed

text \<open>
  Claim C2.  The claim is that \<open>scrollFix\<close> returns without calling \<open>onValueChange\<close> when
  the resolved index equals the current \<open>selectedIndex\<close>, and that it sets \<open>selectedIndex\<close>
  and calls \<open>onValueChange\<close> once when it differs.  The code breaks the first half on the
  timer path.  The callback that \<open>onScrollEndDrag\<close> hands to \<open>setTimeout\<close> keeps the
  \<open>scrollFix\<close> of the render that created it, and so compares with the \<open>selectedIndex\<close> of
  that render.  In the newer revision, with three rows of height \<open>30\<close> and index \<open>0\<close>
  selected: the drag ends at offset \<open>50\<close>, a scroll frame at offset \<open>50\<close> follows and
  \<open>onScroll\<close> selects and reports index \<open>2\<close>; when the timeout fires, the resolved index
  \<open>2\<close> equals the current \<open>selectedIndex\<close>, and \<open>onValueChange\<close> is called with index \<open>2\<close>
  again.  The older revision does the same when a momentum-end event comes between the
  end of the drag and the timeout.
\<close>

theorem timer_reports_unchanged_index:
  "selectedIndex (fst (run Part_000 sample_host sample_props
        [ScrollEndDrag (event_at (Fin 50)), Scroll (event_at (Fin 50))]
        (initial_state sample_props))) = Fin 2
   \<and> js_strict_eq (Fin 2) (js_round (js_div (Fin 50) (itemHeight sample_props)))
   \<and> snd (step Part_000 sample_host sample_props (TimerFire 1)
        (fst (run Part_000 sample_host sample_props
           [ScrollEndDrag (event_at (Fin 50)), Scroll (event_at (Fin 50))]
           (initial_state sample_props))))
       = [ScrollTo (Fin 60) None, ValueChange (Some ''c'') (Fin 2)]
   \<and> snd (run Part_000 sample_host sample_props
        [ScrollEndDrag (event_at (Fin 50)), Scroll (event_at (Fin 50)), TimerFire 1]
        (initial_state sample_props))
       = [ValueChange (Some ''c'') (Fin 2), ScrollTo (Fin 60) None,
          ValueChange (Some ''c'') (Fin 2)]
   \<and> snd (run Index_tsx sample_host sample_props
        [ScrollEndDrag (event_at (Fin 50)), MomentumScrollEnd (event_at (Fin 50)), TimerFire 1]
        (initial_state sample_props))
       = [ScrollTo (Fin 60) None, ValueChange (Some ''c'') (Fin 2), ScrollTo (Fin 60) None,
          ValueChange (Some ''c'') (Fin 2)]"
  by (simp add: onScrollEndDrag_def onScroll_def onMomentumScrollEnd_def timer_callback_def
        call_scrollFix_def clear_timer_def clearTimeout_def setTimeout_def Let_def
        scrollFix2_def scrollFix_def event_at_def
        sView_scrollTo_def call_onValueChange_def initial_state_def constrainIndex_def
        js_max_def js_min_def js_strict_eq_def sample_props_def sample_host_def)

text \<open>
  Claim C5.  \<open>scrollFix\<close> checks no bound.  For every data array, every offset \<open>y\<close> and
  either revision, an \<open>onValueChange\<close> call made by \<open>scrollFix\<close> carries the index
  \<open>Math.round(y / itemHeight)\<close> and the value read at that index of \<open>data\<close>, and it is made
  whenever that index differs from the \<open>selectedIndex\<close> (and the owner listens), whether
  or not the index is one of the array.  The value read at an index at or beyond
  \<open>data.length\<close>, or at any index of an empty array, is the absent element, so that is
  the value reported there.
\<close>

theorem scrollFix_no_bounds_check:
  "(let i = js_round (js_div y (itemHeight p));
        R = scrollFix H p sel (event_at y) s
    in (\<forall>fx \<in> set (snd R). is_ValueChange fx \<longrightarrow> fx = ValueChange (data_at (data p) i) i)
     \<and> (onValueChange p \<and> \<not> js_strict_eq sel i \<longrightarrow> ValueChange (data_at (data p) i) i \<in> set (snd R))
     \<and> (\<exists>R2. scrollFix2 H p sel (event_at y) setScrollTo s = Inr R2
          \<and> (\<forall>fx \<in> set (snd R2). is_ValueChange fx \<longrightarrow> fx = ValueChange (data_at (data p) i) i)
          \<and> (onValueChange p \<and> \<not> js_strict_eq sel i \<longrightarrow>
                ValueChange (data_at (data p) i) i \<in> set (snd R2)))
     \<and> (\<forall>q. i = Fin q \<and> of_nat (length (data p)) \<le> q \<longrightarrow> data_at (data p) i = None)
     \<and> (data p = [] \<longrightarrow> data_at (data p) i = None))"
proof -
  let ?i = "js_round (js_div y (itemHeight p))"
  let ?R = "scrollFix H p sel (event_at y) s"
  have a: "\<forall>fx \<in> set (snd ?R). is_ValueChange fx \<longrightarrow> fx = ValueChange (data_at (data p) ?i) ?i"
    by (auto simp: scrollFix_effects sView_scrollTo_def call_onValueChange_def split: if_splits)
  have b: "onValueChange p \<and> \<not> js_strict_eq sel ?i \<longrightarrow>
      ValueChange (data_at (data p) ?i) ?i \<in> set (snd ?R)"
    by (simp add: scrollFix_effects call_onValueChange_def)
  have c: "\<exists>R2. scrollFix2 H p sel (event_at y) setScrollTo s = Inr R2
          \<and> (\<forall>fx \<in> set (snd R2). is_ValueChange fx \<longrightarrow> fx = ValueChange (data_at (data p) ?i) ?i)
          \<and> (onValueChange p \<and> \<not> js_strict_eq sel ?i \<longrightarrow>
                ValueChange (data_at (data p) ?i) ?i \<in> set (snd R2))"
  proof (cases setScrollTo)
    case True
    with a b show ?thesis by (simp add: scrollFix2_True)
  next
    case False
    then show ?thesis by (simp add: scrollFix2_False call_onValueChange_def)
  qed
  have d: "\<forall>q. ?i = Fin q \<and> of_nat (length (data p)) \<le> q \<longrightarrow> data_at (data p) ?i = None"
    by (auto dest: data_at_out_of_range simp del: data_at.simps)
  have e: "data p = [] \<longrightarrow> data_at (data p) ?i = None"
    by (simp add: data_at_empty)
  from a b c d e show ?thesis unfolding Let_def by blast
qed

theorem scrollFix_no_bounds_check_witness:
  "onValueChange sample_props
   \<and> \<not> js_strict_eq (Fin 0) (js_round (js_div (Fin 100) (itemHeight sample_props)))
   \<and> js_round (js_div (Fin 100) (itemHeight sample_props)) = Fin 3
   \<and> rat_of_nat (length (data sample_props)) \<le> 3
   \<and> ValueChange None (Fin 3)
        \<in> set (snd (scrollFix sample_host sample_props (Fin 0) (event_at (Fin 100))
                      (initial_state sample_props)))"
  using scrollFix_no_bounds_check
          [of "Fin 100" sample_props sample_host "Fin 0" "initial_state sample_props" True]
  by (simp add: Let_def sample_props_def js_strict_eq_def)

section \<open>The drag, momentum and snap phases\<close>

text \<open>
  On any event, \<open>scrollFix\<close> touches \<open>selectedIndex\<close> and \<open>isScrollTo\<close> only, and never
  resets \<open>isScrollTo\<close>; on iOS it sets the flag whenever it scrolls.
\<close>

lemma scrollFix_frame:
  "pending (fst (scrollFix H p sel e s)) = pending s"
  "timer (fst (scrollFix H p sel e s)) = timer s"
  "nextTimer (fst (scrollFix H p sel e s)) = nextTimer s"
  "dragStarted (fst (scrollFix H p sel e s)) = dragStarted s"
  "momentumStarted (fst (scrollFix H p sel e s)) = momentumStarted s"
  "initialized (fst (scrollFix H p sel e s)) = initialized s"
  by (simp_all add: scrollFix_def Let_def split: option.splits)

lemma scrollFix2_frame:
  assumes "scrollFix2 H p sel e b s = Inr (s', fxs)"
  shows "pending s' = pending s" "timer s' = timer s"
    "nextTimer s' = nextTimer s" "dragStarted s' = dragStarted s"
    "momentumStarted s' = momentumStarted s" "initialized s' = initialized s"
  using assms by (auto simp: scrollFix2_def Let_def split: option.splits if_splits)

lemma call_scrollFix_frame:
  "pending (fst (call_scrollFix rv H p sel e s)) = pending s"
  "timer (fst (call_scrollFix rv H p sel e s)) = timer s"
  "nextTimer (fst (call_scrollFix rv H p sel e s)) = nextTimer s"
  "dragStarted (fst (call_scrollFix rv H p sel e s)) = dragStarted s"
  "momentumStarted (fst (call_scrollFix rv H p sel e s)) = momentumStarted s"
  "initialized (fst (call_scrollFix rv H p sel e s)) = initialized s"
  by (auto simp: call_scrollFix_def scrollFix_frame scrollFix2_frame
           split: revision.splits sum.splits)

lemma scrollFix_keeps_isScrollTo:
  "isScrollTo s \<Longrightarrow> isScrollTo (fst (scrollFix H p sel e s))"
  by (simp add: scrollFix_def Let_def split: option.splits)

lemma scrollFix2_keeps_isScrollTo:
  "scrollFix2 H p sel e b s = Inr (s', fxs) \<Longrightarrow> isScrollTo s \<Longrightarrow> isScrollTo s'"
  by (auto simp: scrollFix2_def Let_def split: option.splits if_splits)

lemma call_scrollFix_keeps_isScrollTo:
  "isScrollTo s \<Longrightarrow> isScrollTo (fst (call_scrollFix rv H p sel e s))"
  by (auto simp: call_scrollFix_def scrollFix_keeps_isScrollTo scrollFix2_keeps_isScrollTo
           split: revision.splits sum.splits)

lemma scrollFix_scroll_sets_flag:
  "ios H \<Longrightarrow> fx \<in> set (snd (scrollFix H p sel e s)) \<Longrightarrow> is_ScrollTo fx
     \<Longrightarrow> isScrollTo (fst (scrollFix H p sel e s))"
  by (auto simp: scrollFix_def Let_def call_onValueChange_def sView_scrollTo_def
           split: option.splits if_splits)

lemma scrollFix2_scroll_sets_flag:
  "ios H \<Longrightarrow> scrollFix2 H p sel e b s = Inr (s', fxs) \<Longrightarrow> fx \<in> set fxs \<Longrightarrow> is_ScrollTo fx
     \<Longrightarrow> isScrollTo s'"
  by (auto simp: scrollFix2_def Let_def call_onValueChange_def sView_scrollTo_def
           split: option.splits if_splits)

lemma call_scrollFix_scroll_sets_flag:
  "ios H \<Longrightarrow> fx \<in> set (snd (call_scrollFix rv H p sel e s)) \<Longrightarrow> is_ScrollTo fx
     \<Longrightarrow> isScrollTo (fst (call_scrollFix rv H p sel e s))"
  by (auto simp: call_scrollFix_def scrollFix_scroll_sets_flag scrollFix2_scroll_sets_flag
           split: revision.splits sum.splits)

lemma clearTimeout_fields [simp]:
  "isScrollTo (clearTimeout i s) = isScrollTo s"
  "timer (clearTimeout i s) = timer s"
  "momentumStarted (clearTimeout i s) = momentumStarted s"
  "dragStarted (clearTimeout i s) = dragStarted s"
  "selectedIndex (clearTimeout i s) = selectedIndex s"
  by (simp_all add: clearTimeout_def)

lemma clear_timer_fields [simp]:
  "isScrollTo (clear_timer s) = isScrollTo s"
  "timer (clear_timer s) = timer s"
  "momentumStarted (clear_timer s) = momentumStarted s"
  "dragStarted (clear_timer s) = dragStarted s"
  "selectedIndex (clear_timer s) = selectedIndex s"
  "nextTimer (clear_timer s) = nextTimer s"
  by (simp_all add: clear_timer_def clearTimeout_def split: option.splits)

lemma step_keeps_isScrollTo:
  "ev \<noteq> ScrollBeginDrag \<Longrightarrow> isScrollTo s \<Longrightarrow> isScrollTo (fst (step rv H p ev s))"
proof (cases ev)
  case (MomentumScrollEnd e)
  assume "isScrollTo s"
  with MomentumScrollEnd show ?thesis by (simp add: onMomentumScrollEnd_def)
next
  case (TimerFire i)
  assume "isScrollTo s"
  with TimerFire show ?thesis
    by (simp add: timer_callback_def call_scrollFix_keeps_isScrollTo split: option.splits)
next
  case (Scroll e)
  assume "isScrollTo s"
  with Scroll show ?thesis
    by (auto simp: onScroll_def scrollFix2_keeps_isScrollTo split: sum.splits)
next
  case (ScrollEndDrag e)
  assume "isScrollTo s"
  with ScrollEndDrag show ?thesis
    by (simp add: onScrollEndDrag_def setTimeout_def Let_def)
next
  case MomentumScrollBegin
  assume "isScrollTo s"
  with MomentumScrollBegin show ?thesis by (simp add: onMomentumScrollBegin_def)
next
  case (Press k)
  assume "isScrollTo s"
  with Press show ?thesis by simp
next
  case RunEffects
  assume "isScrollTo s"
  with RunEffects show ?thesis by (simp add: initialize_def)
next
  case ScrollBeginDrag
  assume "ev \<noteq> ScrollBeginDrag"
  with ScrollBeginDrag show ?thesis by simp
qed

lemma run_keeps_isScrollTo:
  "isScrollTo s \<Longrightarrow> ScrollBeginDrag \<notin> set evs \<Longrightarrow> isScrollTo (fst (run rv H p evs s))"
proof (induction evs arbitrary: s)
  case Nil
  then show ?case by simp
next
  case (Cons ev evs)
  from Cons.prems have "isScrollTo (fst (step rv H p ev s))"
    by (auto intro: step_keeps_isScrollTo)
  moreover from Cons.prems have "ScrollBeginDrag \<notin> set evs" by simp
  ultimately have "isScrollTo (fst (run rv H p evs (fst (step rv H p ev s))))"
    by (rule Cons.IH)
  then show ?case by (simp add: split_def Let_def)
qed

lemma momentum_end_gated:
  "isScrollTo s \<or> dragStarted s
     \<Longrightarrow> onMomentumScrollEnd rv H p e s = (s\<lparr>momentumStarted := False\<rparr>, [])"
  by (auto simp: onMomentumScrollEnd_def)

lemma step_scroll_sets_flag:
  assumes "ios H" and "fx \<in> set (snd (step rv H p ev s))" and "is_ScrollTo fx"
    and "\<forall>k. ev \<noteq> Press k" and "ev \<noteq> RunEffects"
  shows "isScrollTo (fst (step rv H p ev s))"
proof (cases ev)
  case (MomentumScrollEnd e)
  with assms show ?thesis
    by (auto simp: onMomentumScrollEnd_def Let_def split: if_splits
             dest: call_scrollFix_scroll_sets_flag)
next
  case (TimerFire i)
  with assms show ?thesis
    by (auto simp: timer_callback_def split: option.splits if_splits
             dest: call_scrollFix_scroll_sets_flag)
next
  case (Scroll e)
  with assms show ?thesis
    by (auto simp: onScroll_def split: sum.splits if_splits
             dest: scrollFix2_scroll_sets_flag)
qed (use assms in auto)

text \<open>
  Claim C3.  On iOS a snap never triggers a second one.  When the \<open>scrollFix\<close> run by
  \<open>onMomentumScrollEnd\<close> or by the timeout issues a \<open>scrollTo\<close>, \<open>isScrollTo\<close> is set after it.
  \<open>onMomentumScrollEnd\<close> calls \<open>scrollFix\<close> only when \<open>isScrollTo\<close> and \<open>dragStarted\<close> are both
  false: otherwise it only clears \<open>momentumStarted\<close>.  No handler but \<open>onScrollBeginDrag\<close>
  resets \<open>isScrollTo\<close>.  So after such a snap, in every sequence of events in which no new
  drag begins, a momentum-end event (the one the snap itself produces included) does
  not enter \<open>scrollFix\<close>: it changes nothing but \<open>momentumStarted\<close> and calls nothing.
\<close>

theorem snap_not_retriggered:
  assumes "ios H"
  shows "((ev0 = MomentumScrollEnd e0 \<or> ev0 = TimerFire i)
            \<and> (\<exists>fx \<in> set (snd (step rv H p ev0 s)). is_ScrollTo fx)
          \<longrightarrow> isScrollTo (fst (step rv H p ev0 s)))
       \<and> (isScrollTo s \<or> dragStarted s
          \<longrightarrow> step rv H p (MomentumScrollEnd e) s = (s\<lparr>momentumStarted := False\<rparr>, []))
       \<and> (ev \<noteq> ScrollBeginDrag \<and> isScrollTo s \<longrightarrow> isScrollTo (fst (step rv H p ev s)))
       \<and> ((ev0 = MomentumScrollEnd e0 \<or> ev0 = TimerFire i)
            \<and> (\<exists>fx \<in> set (snd (step rv H p ev0 s)). is_ScrollTo fx)
            \<and> ScrollBeginDrag \<notin> set evs
          \<longrightarrow> (let s1 = fst (step rv H p ev0 s); s2 = fst (run rv H p evs s1)
               in step rv H p (MomentumScrollEnd e) s2 = (s2\<lparr>momentumStarted := False\<rparr>, [])))"
proof -
  have flag: "isScrollTo (fst (step rv H p ev0 s))"
    if "ev0 = MomentumScrollEnd e0 \<or> ev0 = TimerFire i"
      and "\<exists>fx \<in> set (snd (step rv H p ev0 s)). is_ScrollTo fx"
  proof -
    from that(2) obtain fx where "fx \<in> set (snd (step rv H p ev0 s))" and "is_ScrollTo fx"
      by blast
    moreover from that(1) have "\<forall>k. ev0 \<noteq> Press k" and "ev0 \<noteq> RunEffects" by auto
    ultimately show ?thesis using assms by (rule step_scroll_sets_flag [rotated])
  qed
  have gate: "step rv H p (MomentumScrollEnd e) t = (t\<lparr>momentumStarted := False\<rparr>, [])"
    if "isScrollTo t \<or> dragStarted t" for t
    using that by (simp add: momentum_end_gated)
  have keep: "isScrollTo (fst (step rv H p ev s))" if "ev \<noteq> ScrollBeginDrag" "isScrollTo s"
    using that by (rule step_keeps_isScrollTo)
  have seq: "step rv H p (MomentumScrollEnd e) (fst (run rv H p evs (fst (step rv H p ev0 s))))
        = ((fst (run rv H p evs (fst (step rv H p ev0 s))))\<lparr>momentumStarted := False\<rparr>, [])"
    if "ev0 = MomentumScrollEnd e0 \<or> ev0 = TimerFire i"
      and "\<exists>fx \<in> set (snd (step rv H p ev0 s)). is_ScrollTo fx"
      and "ScrollBeginDrag \<notin> set evs"
  proof -
    from that(1,2) have "isScrollTo (fst (step rv H p ev0 s))" by (rule flag)
    then have "isScrollTo (fst (run rv H p evs (fst (step rv H p ev0 s))))"
      using that(3) by (rule run_keeps_isScrollTo)
    then have "isScrollTo (fst (run rv H p evs (fst (step rv H p ev0 s))))
        \<or> dragStarted (fst (run rv H p evs (fst (step rv H p ev0 s))))" ..
    then show ?thesis by (rule gate)
  qed
  from flag gate keep seq show ?thesis unfolding Let_def by blast
qed

theorem snap_not_retriggered_witness:
  "ios sample_host
   \<and> snd (step Index_tsx sample_host sample_props (MomentumScrollEnd (event_at (Fin 50)))
            (initial_state sample_props))
       = [ScrollTo (Fin 60) None, ValueChange (Some ''c'') (Fin 2)]
   \<and> ScrollBeginDrag \<notin> set [MomentumScrollBegin]
   \<and> snd (step Index_tsx sample_host sample_props (MomentumScrollEnd (event_at (Fin 70)))
            (fst (run Index_tsx sample_host sample_props [MomentumScrollBegin]
               (fst (step Index_tsx sample_host sample_props
                      (MomentumScrollEnd (event_at (Fin 50))) (initial_state sample_props))))))
       = []"
proof -
  have ios: "ios sample_host" by (simp add: sample_host_def)
  have fx: "snd (step Index_tsx sample_host sample_props (MomentumScrollEnd (event_at (Fin 50)))
            (initial_state sample_props))
       = [ScrollTo (Fin 60) None, ValueChange (Some ''c'') (Fin 2)]"
    by (simp add: onMomentumScrollEnd_def call_scrollFix_def scrollFix_effects Let_def
          initial_state_def constrainIndex_def js_max_def js_min_def sample_props_def
          sample_host_def js_strict_eq_def call_onValueChange_def sView_scrollTo_def)
  from fx ios
    snap_not_retriggered [OF ios, of "MomentumScrollEnd (event_at (Fin 50))"
      "event_at (Fin 50)" 0 Index_tsx sample_props "initial_state sample_props"
      "event_at (Fin 70)" MomentumScrollBegin "[MomentumScrollBegin]"]
  show ?thesis by (simp add: Let_def)
qed

section \<open>The debounce timer\<close>

lemma distinct_all_equal:
  "distinct xs \<Longrightarrow> \<forall>x \<in> set xs. x = a \<Longrightarrow> length xs \<le> 1"
proof (cases xs)
  case Nil
  then show ?thesis by simp
next
  case (Cons x ys)
  assume "distinct xs" and "\<forall>x \<in> set xs. x = a"
  with Cons show ?thesis by (cases ys) auto
qed

lemma timer_inv_length: "timer_inv s \<Longrightarrow> length (pending s) \<le> 1"
proof -
  assume inv: "timer_inv s"
  show ?thesis
  proof (cases "timer s")
    case None
    with inv have "pending s = []" by (cases "pending s") (auto simp: timer_inv_def)
    then show ?thesis by simp
  next
    case (Some i)
    with inv have "\<forall>x \<in> set (map fst (pending s)). x = i" by (auto simp: timer_inv_def)
    moreover from inv have "distinct (map fst (pending s))" by (simp add: timer_inv_def)
    ultimately have "length (map fst (pending s)) \<le> 1" by (rule distinct_all_equal [rotated])
    then show ?thesis by simp
  qed
qed

lemma clear_timer_empties:
  assumes "\<forall>(i, c) \<in> set (pending s). timer s = Some i"
  shows "pending (clear_timer s) = []"
proof (cases "timer s")
  case None
  with assms have "pending s = []" by (cases "pending s") auto
  with None show ?thesis by (simp add: clear_timer_def)
next
  case (Some i)
  with assms have "filter (\<lambda>(j, c). j \<noteq> i) (pending s) = []"
    by (auto simp: filter_empty_conv)
  with Some show ?thesis by (simp add: clear_timer_def clearTimeout_def)
qed

lemma timer_inv_initial: "timer_inv (initial_state p)"
  by (simp add: timer_inv_def initial_state_def)

lemma timer_inv_subset:
  assumes "timer_inv s" and "pending s' = filter P (pending s)" and "timer s' = timer s"
    and "momentumStarted s' \<longrightarrow> momentumStarted s"
  shows "timer_inv s'"
  using assms by (auto simp: timer_inv_def distinct_map_filter)

lemma timer_inv_empty: "pending s = [] \<Longrightarrow> timer_inv s"
  by (simp add: timer_inv_def)

lemma onScrollBeginDrag_pending:
  "timer_inv s \<Longrightarrow> pending (onScrollBeginDrag H s) = []"
  by (auto simp: onScrollBeginDrag_def Let_def timer_inv_def intro!: clear_timer_empties)

lemma onMomentumScrollBegin_pending:
  "timer_inv s \<Longrightarrow> pending (onMomentumScrollBegin s) = []"
  by (auto simp: onMomentumScrollBegin_def timer_inv_def intro!: clear_timer_empties)

lemma onScrollEndDrag_pending:
  assumes "timer_inv s"
  shows "pending (onScrollEndDrag e s) =
           [(nextTimer s, \<lparr>c_momentumStarted = momentumStarted s,
                           c_selectedIndex = selectedIndex s, c_event = e\<rparr>)]"
    and "timer (onScrollEndDrag e s) = Some (nextTimer s)"
    and "momentumStarted (onScrollEndDrag e s) = momentumStarted s"
proof -
  from assms have "pending (clear_timer (s\<lparr>dragStarted := False\<rparr>)) = []"
    by (auto simp: timer_inv_def intro!: clear_timer_empties)
  then show "pending (onScrollEndDrag e s) =
           [(nextTimer s, \<lparr>c_momentumStarted = momentumStarted s,
                           c_selectedIndex = selectedIndex s, c_event = e\<rparr>)]"
    and "timer (onScrollEndDrag e s) = Some (nextTimer s)"
    and "momentumStarted (onScrollEndDrag e s) = momentumStarted s"
    by (simp_all add: onScrollEndDrag_def setTimeout_def Let_def)
qed

lemma timer_inv_step:
  assumes "timer_inv s"
  shows "timer_inv (fst (step rv H p ev s))"
proof (cases ev)
  case ScrollBeginDrag
  with assms show ?thesis by (simp add: timer_inv_empty onScrollBeginDrag_pending)
next
  case (ScrollEndDrag e)
  with onScrollEndDrag_pending [OF assms, of e] show ?thesis
    by (simp add: timer_inv_def)
next
  case MomentumScrollBegin
  with assms show ?thesis by (simp add: timer_inv_empty onMomentumScrollBegin_pending)
next
  case (MomentumScrollEnd e)
  have "timer_inv (fst (onMomentumScrollEnd rv H p e s))"
    by (rule timer_inv_subset [OF assms, where P = "\<lambda>x. True"])
       (simp_all add: onMomentumScrollEnd_def Let_def call_scrollFix_frame)
  with MomentumScrollEnd show ?thesis by simp
next
  case (Scroll e)
  have "timer_inv (fst (step rv H p (Scroll e) s))"
    by (rule timer_inv_subset [OF assms, where P = "\<lambda>x. True"])
       (auto simp: onScroll_def scrollFix2_frame split: sum.splits)
  with Scroll show ?thesis by simp
next
  case (TimerFire i)
  have "timer_inv (fst (step rv H p (TimerFire i) s))"
    by (rule timer_inv_subset [OF assms, where P = "\<lambda>(j, c). map_of (pending s) i \<noteq> None \<longrightarrow> j \<noteq> i"])
       (auto simp: timer_callback_def call_scrollFix_frame clearTimeout_def
             split: option.splits intro!: filter_cong)
  with TimerFire show ?thesis by simp
next
  case (Press k)
  with assms show ?thesis by simp
next
  case RunEffects
  have "timer_inv (fst (initialize H p s))"
    by (rule timer_inv_subset [OF assms, where P = "\<lambda>x. True"])
       (simp_all add: initialize_def)
  with RunEffects show ?thesis by simp
qed

lemma timer_inv_run: "timer_inv s \<Longrightarrow> timer_inv (fst (run rv H p evs s))"
proof (induction evs arbitrary: s)
  case Nil
  then show ?case by simp
next
  case (Cons ev evs)
  from Cons.prems have "timer_inv (fst (step rv H p ev s))" by (rule timer_inv_step)
  then have "timer_inv (fst (run rv H p evs (fst (step rv H p ev s))))" by (rule Cons.IH)
  then show ?case by (simp add: split_def Let_def)
qed

lemma timer_fire_during_momentum:
  assumes "timer_inv s" and "map_of (pending s) i = Some c"
    and "c_momentumStarted c \<or> momentumStarted s"
  shows "step rv H p (TimerFire i) s = (clearTimeout i s, [])"
proof -
  from assms(2) have "(i, c) \<in> set (pending s)" by (rule map_of_SomeD)
  with assms(1) have "momentumStarted s \<longrightarrow> c_momentumStarted c"
    by (auto simp: timer_inv_def)
  with assms(3) have "c_momentumStarted c" by blast
  with assms(2) show ?thesis by (simp add: timer_callback_def)
qed

text \<open>
  Claim C4.  In every state reached from the initial one, at most one timeout is
  pending.  \<open>onScrollBeginDrag\<close> and \<open>onMomentumScrollBegin\<close> leave none pending;
  \<open>onScrollEndDrag\<close>, the only handler that sets a timeout, clears the pending one first, so
  that exactly the new one is pending after it.  When a timeout fires, its callback
  runs \<open>scrollFix\<close> only if momentum has not started: if \<open>momentumStarted\<close> was set when
  the callback was created, or is set now, firing does nothing but remove the timeout.
\<close>

theorem single_pending_timer:
  "(let s = fst (run rv H p evs (initial_state p)) in
      length (pending s) \<le> 1
    \<and> pending (fst (step rv H p ScrollBeginDrag s)) = []
    \<and> pending (fst (step rv H p MomentumScrollBegin s)) = []
    \<and> pending (fst (step rv H p (ScrollEndDrag e) s)) =
         [(nextTimer s, \<lparr>c_momentumStarted = momentumStarted s,
                         c_selectedIndex = selectedIndex s, c_event = e\<rparr>)]
    \<and> (\<forall>i c. map_of (pending s) i = Some c \<and> (c_momentumStarted c \<or> momentumStarted s)
          \<longrightarrow> step rv H p (TimerFire i) s = (clearTimeout i s, []))
    \<and> (\<forall>i c. map_of (pending s) i = Some c \<and> \<not> c_momentumStarted c
          \<longrightarrow> step rv H p (TimerFire i) s =
                call_scrollFix rv H p (c_selectedIndex c) (c_event c) (clearTimeout i s)))"
proof -
  let ?s = "fst (run rv H p evs (initial_state p))"
  have inv: "timer_inv ?s"
    by (rule timer_inv_run) (rule timer_inv_initial)
  have one: "length (pending ?s) \<le> 1"
    using inv by (rule timer_inv_length)
  have drag: "pending (fst (step rv H p ScrollBeginDrag ?s)) = []"
    using inv by (simp add: onScrollBeginDrag_pending)
  have momentum: "pending (fst (step rv H p MomentumScrollBegin ?s)) = []"
    using inv by (simp add: onMomentumScrollBegin_pending)
  have sched: "pending (fst (step rv H p (ScrollEndDrag e) ?s)) =
         [(nextTimer ?s, \<lparr>c_momentumStarted = momentumStarted ?s,
                          c_selectedIndex = selectedIndex ?s, c_event = e\<rparr>)]"
    using onScrollEndDrag_pending(1) [OF inv, of e] by simp
  have idle: "step rv H p (TimerFire i) ?s = (clearTimeout i ?s, [])"
    if "map_of (pending ?s) i = Some c" "c_momentumStarted c \<or> momentumStarted ?s" for i c
    using inv that by (rule timer_fire_during_momentum)
  have fire: "step rv H p (TimerFire i) ?s =
                call_scrollFix rv H p (c_selectedIndex c) (c_event c) (clearTimeout i ?s)"
    if "map_of (pending ?s) i = Some c" "\<not> c_momentumStarted c" for i c
    using that by (simp add: timer_callback_def)
  from one drag momentum sched idle fire show ?thesis
    unfolding Let_def by blast
qed

theorem single_pending_timer_witness:
  "pending (fst (run Index_tsx sample_host sample_props
       [MomentumScrollBegin, ScrollBeginDrag, ScrollEndDrag (event_at (Fin 50))]
       (initial_state sample_props)))
     = [(1, \<lparr>c_momentumStarted = True, c_selectedIndex = Fin 0, c_event = event_at (Fin 50)\<rparr>)]
   \<and> step Index_tsx sample_host sample_props (TimerFire 1)
       (fst (run Index_tsx sample_host sample_props
          [MomentumScrollBegin, ScrollBeginDrag, ScrollEndDrag (event_at (Fin 50))]
          (initial_state sample_props)))
     = (clearTimeout 1 (fst (run Index_tsx sample_host sample_props
          [MomentumScrollBegin, ScrollBeginDrag, ScrollEndDrag (event_at (Fin 50))]
          (initial_state sample_props))), [])
   \<and> pending (fst (run Index_tsx sample_host sample_props
       [ScrollEndDrag (event_at (Fin 20)), ScrollEndDrag (event_at (Fin 50))]
       (initial_state sample_props)))
     = [(2, \<lparr>c_momentumStarted = False, c_selectedIndex = Fin 0, c_event = event_at (Fin 50)\<rparr>)]"
proof -
  have run1: "fst (run Index_tsx sample_host sample_props
       [MomentumScrollBegin, ScrollBeginDrag, ScrollEndDrag (event_at (Fin 50))]
       (initial_state sample_props))
     = (initial_state sample_props)
         \<lparr>momentumStarted := True, timer := Some 1, nextTimer := 2,
          pending := [(1, \<lparr>c_momentumStarted = True, c_selectedIndex = Fin 0,
                            c_event = event_at (Fin 50)\<rparr>)]\<rparr>"
    by (simp add: onMomentumScrollBegin_def onScrollBeginDrag_def onScrollEndDrag_def
          clear_timer_def clearTimeout_def setTimeout_def Let_def initial_state_def
          sample_host_def sample_props_def constrainIndex_def js_max_def js_min_def)
  have run2: "pending (fst (run Index_tsx sample_host sample_props
       [ScrollEndDrag (event_at (Fin 20)), ScrollEndDrag (event_at (Fin 50))]
       (initial_state sample_props)))
     = [(2, \<lparr>c_momentumStarted = False, c_selectedIndex = Fin 0, c_event = event_at (Fin 50)\<rparr>)]"
    by (simp add: onScrollEndDrag_def clear_timer_def clearTimeout_def setTimeout_def Let_def
          initial_state_def sample_props_def constrainIndex_def js_max_def js_min_def)
  from run1 run2
    single_pending_timer [of Index_tsx sample_host sample_props
      "[MomentumScrollBegin, ScrollBeginDrag, ScrollEndDrag (event_at (Fin 50))]"
      "event_at (Fin 50)"]
  show ?thesis by (simp add: Let_def)
qed

section \<open>The height of the container\<close>

lemma js_or_truthy: "js_truthy a \<Longrightarrow> js_or a b = a"
  by (simp add: js_or_def)

lemma js_or_falsy: "\<not> js_truthy a \<Longrightarrow> js_or a b = b"
  by (simp add: js_or_def)

lemma wrapperHeight_container:
  "containerHeight p = Some c \<Longrightarrow> js_truthy c \<Longrightarrow> wrapperHeight H p = c"
  by (simp add: wrapperHeight_def js_or_truthy)

lemma wrapperHeight_rest:
  assumes "containerHeight p = None \<or> (\<exists>c. containerHeight p = Some c \<and> \<not> js_truthy c)"
  shows "wrapperHeight H p =
           js_or (if isViewStyle (style p) \<and> isNumeric H (style_height (style p))
                  then js_Number H (style_height (style p)) else Fin 0)
                 (js_mul (itemHeight p) (Fin 5))"
  using assms by (auto simp: wrapperHeight_def js_or_falsy)

lemma Fin0_falsy: "\<not> js_truthy (Fin 0)"
  by (simp add: js_truthy_def)

text \<open>
  Claim C6.  The height of the container is resolved by a chain of fallbacks.
  \<open>wrapperHeight\<close> is the \<open>containerHeight\<close> prop when that is truthy.  Otherwise it is
  \<open>Number(style.height)\<close> when the \<open>style\<close> prop is an object with a \<open>height\<close> that
  \<open>isNumeric\<close> accepts and whose number is truthy, that is, a number other than zero.
  Otherwise it is \<open>itemHeight * 5\<close>.  In particular, with \<open>containerHeight = 0\<close>, a style
  height of \<open>0\<close> and a style height that is a non-numeric string both end at
  \<open>itemHeight * 5\<close>.
\<close>

theorem wrapperHeight_fallback:
  "(\<forall>c. containerHeight p = Some c \<and> js_truthy c \<longrightarrow> wrapperHeight H p = c)
   \<and> (containerHeight p = None \<or> (\<exists>c. containerHeight p = Some c \<and> \<not> js_truthy c) \<longrightarrow>
        (isViewStyle (style p) \<and> isNumeric H (style_height (style p))
           \<and> js_truthy (js_Number H (style_height (style p)))
         \<longrightarrow> wrapperHeight H p = js_Number H (style_height (style p)))
      \<and> (\<not> (isViewStyle (style p) \<and> isNumeric H (style_height (style p))
              \<and> js_truthy (js_Number H (style_height (style p))))
         \<longrightarrow> wrapperHeight H p = js_mul (itemHeight p) (Fin 5)))
   \<and> (containerHeight p = Some (Fin 0) \<and> style p = StyleObject (Some (VNumber (Fin 0)))
        \<longrightarrow> wrapperHeight H p = js_mul (itemHeight p) (Fin 5))
   \<and> (\<forall>t. containerHeight p = Some (Fin 0) \<and> style p = StyleObject (Some (VString t))
            \<and> \<not> isNumeric H (VString t)
        \<longrightarrow> wrapperHeight H p = js_mul (itemHeight p) (Fin 5))"
proof -
  have first: "wrapperHeight H p = c" if "containerHeight p = Some c" "js_truthy c" for c
    using that by (rule wrapperHeight_container)
  have second: "wrapperHeight H p = js_Number H (style_height (style p))"
    if "containerHeight p = None \<or> (\<exists>c. containerHeight p = Some c \<and> \<not> js_truthy c)"
      and "isViewStyle (style p)" "isNumeric H (style_height (style p))"
      and "js_truthy (js_Number H (style_height (style p)))"
    using that by (simp add: wrapperHeight_rest js_or_truthy)
  have third: "wrapperHeight H p = js_mul (itemHeight p) (Fin 5)"
    if "containerHeight p = None \<or> (\<exists>c. containerHeight p = Some c \<and> \<not> js_truthy c)"
      and "\<not> (isViewStyle (style p) \<and> isNumeric H (style_height (style p))
              \<and> js_truthy (js_Number H (style_height (style p))))"
    using that by (auto simp: wrapperHeight_rest js_or_falsy Fin0_falsy)
  have zero: "wrapperHeight H p = js_mul (itemHeight p) (Fin 5)"
    if "containerHeight p = Some (Fin 0)" "style p = StyleObject (Some (VNumber (Fin 0)))"
  proof (rule third)
    from that(1) show "containerHeight p = None
        \<or> (\<exists>c. containerHeight p = Some c \<and> \<not> js_truthy c)"
      by (simp add: Fin0_falsy)
    from that(2) show "\<not> (isViewStyle (style p) \<and> isNumeric H (style_height (style p))
              \<and> js_truthy (js_Number H (style_height (style p))))"
      by (simp add: Fin0_falsy)
  qed
  have nonnum: "wrapperHeight H p = js_mul (itemHeight p) (Fin 5)"
    if "containerHeight p = Some (Fin 0)" "style p = StyleObject (Some (VString t))"
      "\<not> isNumeric H (VString t)" for t
  proof (rule third)
    from that(1) show "containerHeight p = None
        \<or> (\<exists>c. containerHeight p = Some c \<and> \<not> js_truthy c)"
      by (simp add: Fin0_falsy)
    from that(2,3) show "\<not> (isViewStyle (style p) \<and> isNumeric H (style_height (style p))
              \<and> js_truthy (js_Number H (style_height (style p))))"
      by auto
  qed
  from first second third zero nonnum show ?thesis by blast
qed

theorem wrapperHeight_fallback_witness:
  "wrapperHeight sample_host (sample_props\<lparr>containerHeight := Some (Fin 200)\<rparr>) = Fin 200
   \<and> wrapperHeight sample_host
       (sample_props\<lparr>containerHeight := Some (Fin 0), style := StyleObject (Some (VString ''120''))\<rparr>)
       = Fin 120
   \<and> wrapperHeight sample_host
       (sample_props\<lparr>containerHeight := Some (Fin 0), style := StyleObject (Some (VNumber (Fin 0)))\<rparr>)
       = Fin 150
   \<and> wrapperHeight sample_host
       (sample_props\<lparr>containerHeight := Some (Fin 0), style := StyleObject (Some (VString ''12px''))\<rparr>)
       = Fin 150"
  using wrapperHeight_fallback [of "sample_props\<lparr>containerHeight := Some (Fin 200)\<rparr>" sample_host]
    wrapperHeight_fallback [of "sample_props\<lparr>containerHeight := Some (Fin 0),
        style := StyleObject (Some (VString ''120''))\<rparr>" sample_host]
    wrapperHeight_fallback [of "sample_props\<lparr>containerHeight := Some (Fin 0),
        style := StyleObject (Some (VNumber (Fin 0)))\<rparr>" sample_host]
    wrapperHeight_fallback [of "sample_props\<lparr>containerHeight := Some (Fin 0),
        style := StyleObject (Some (VString ''12px''))\<rparr>" sample_host]
  by (simp add: sample_props_def sample_host_def sample_number_def js_truthy_def js_isNaN_def)

section \<open>The highlighted row\<close>

lemma js_strict_eq_Fin: "js_strict_eq (Fin a) b = (b = Fin a)"
  by (auto simp: js_strict_eq_def)

lemma filter_eq_upt: "filter (\<lambda>i. i = k) [0 ..< n] = (if k < n then [k] else [])"
  by (induction n) auto

lemma count_zip_upt:
  "length (filter (\<lambda>(i, x). Q i) (zip [0 ..< length xs] xs)) = length (filter Q [0 ..< length xs])"
proof -
  have "length (filter Q [0 ..< length xs])
      = length (filter Q (map fst (zip [0 ..< length xs] xs)))"
    by simp
  also have "\<dots> = length (filter (Q \<circ> fst) (zip [0 ..< length xs] xs))"
    by (simp only: length_filter_map)
  also have "\<dots> = length (filter (\<lambda>(i, x). Q i) (zip [0 ..< length xs] xs))"
    by (simp add: comp_def split_def)
  finally show ?thesis by simp
qed

lemma selected_rows_count:
  "length (filter isSelected (render_rows p s)) =
     (if \<exists>k < length (data p). selectedIndex s = Fin (of_nat k) then 1 else 0)"
proof -
  let ?Q = "\<lambda>i::nat. selectedIndex s = Fin (of_nat i)"
  have "length (filter isSelected (render_rows p s))
      = length (filter (\<lambda>(i, x). ?Q i) (zip [0 ..< length (data p)] (data p)))"
    by (simp add: render_rows_def renderItem_def length_filter_map comp_def split_def
          js_strict_eq_Fin)
  also have "\<dots> = length (filter ?Q [0 ..< length (data p)])"
    by (rule count_zip_upt)
  also have "\<dots> = (if \<exists>k < length (data p). selectedIndex s = Fin (of_nat k) then 1 else 0)"
  proof (cases "\<exists>k < length (data p). selectedIndex s = Fin (of_nat k)")
    case True
    then obtain k where k: "k < length (data p)" "selectedIndex s = Fin (of_nat k)" by blast
    then have "filter ?Q [0 ..< length (data p)] = filter (\<lambda>i. i = k) [0 ..< length (data p)]"
      by (intro filter_cong) auto
    with k True show ?thesis by (simp add: filter_eq_upt)
  next
    case False
    then have "filter ?Q [0 ..< length (data p)] = []"
      by (auto simp: filter_empty_conv)
    with False show ?thesis by simp
  qed
  finally show ?thesis .
qed

lemma row_selected_iff:
  "r \<in> set (render_rows p s) \<Longrightarrow> isSelected r = (selectedIndex s = Fin (of_nat (row_index r)))"
  by (auto simp: render_rows_def renderItem_def js_strict_eq_Fin)

lemma child_tops_length [simp]: "length (child_tops t hs) = length hs"
  by (induction hs arbitrary: t) simp_all


lemma child_tops_rows:
  "k < n \<Longrightarrow> child_tops t (replicate n h @ rest) ! k = t + of_nat k * h"
proof (induction n arbitrary: t k)
  case 0
  then show ?case by simp
next
  case (Suc n)
  show ?case
  proof (cases k)
    case 0
    then show ?thesis by simp
  next
    case (Suc j)
    with Suc.prems have "j < n" by simp
    then have "child_tops (t + h) (replicate n h @ rest) ! j = t + h + of_nat j * h"
      by (rule Suc.IH)
    with Suc show ?thesis by (simp add: algebra_simps)
  qed
qed

lemma row_on_screen_frame:
  "k < n \<Longrightarrow> row_on_screen spacer h n k offset =
     \<lparr>frame_top = Fin (spacer + of_nat k * h - offset), frame_height = Fin h\<rparr>"
  by (simp add: row_on_screen_def content_heights_def child_tops_rows nth_append)

text \<open>
  Claim C7, as amended.  For every index, \<open>renderItem\<close> passes \<open>isSelected = true\<close> exactly
  when the index equals the current \<open>selectedIndex\<close>; hence at most one rendered row is
  highlighted, and exactly one when \<open>selectedIndex\<close> is an index of \<open>data\<close>.  The highlight
  overlay sits at \<open>top = (wrapperHeight - itemHeight) / 2\<close>, the height of the spacer before
  the first row, with height \<open>itemHeight\<close>; so with finite sizes, when the content is
  scrolled to the offset \<open>k * itemHeight\<close> of row \<open>k\<close>, the frame of that row on screen is
  the frame of the overlay.
\<close>

theorem highlight_of_selected_row:
  "(\<forall>item index. isSelected (renderItem p s item index)
                   = js_strict_eq (Fin (of_nat index)) (selectedIndex s))
   \<and> (\<forall>r \<in> set (render_rows p s).
         isSelected r = (selectedIndex s = Fin (of_nat (row_index r))))
   \<and> length (filter isSelected (render_rows p s)) =
        (if \<exists>k < length (data p). selectedIndex s = Fin (of_nat k) then 1 else 0)
   \<and> frame_top (highlightStyle H p) = verticalSpacing H p
   \<and> frame_height (highlightStyle H p) = itemHeight p
   \<and> (\<forall>W h k. wrapperHeight H p = Fin W \<and> itemHeight p = Fin h \<and> k < length (data p)
         \<longrightarrow> row_on_screen ((W - h) / 2) h (length (data p)) k (of_nat k * h)
               = highlightStyle H p)"
proof -
  have flag: "isSelected (renderItem p s item index)
                = js_strict_eq (Fin (of_nat index)) (selectedIndex s)" for item index
    by (simp add: renderItem_def)
  have rows: "\<forall>r \<in> set (render_rows p s).
         isSelected r = (selectedIndex s = Fin (of_nat (row_index r)))"
    by (simp add: row_selected_iff)
  have frame: "row_on_screen ((W - h) / 2) h (length (data p)) k (of_nat k * h)
               = highlightStyle H p"
    if "wrapperHeight H p = Fin W" "itemHeight p = Fin h" "k < length (data p)" for W h k
    using that by (simp add: row_on_screen_frame highlightStyle_def)
  from flag rows frame show ?thesis
    by (simp add: selected_rows_count highlightStyle_def verticalSpacing_def)
qed

theorem highlight_of_selected_row_witness:
  "wrapperHeight sample_host sample_props = Fin 150 \<and> itemHeight sample_props = Fin 30
   \<and> (2::nat) < length (data sample_props)
   \<and> row_on_screen ((150 - 30) / 2) 30 (length (data sample_props)) 2 (of_nat 2 * 30)
       = \<lparr>frame_top = Fin 60, frame_height = Fin 30\<rparr>
   \<and> highlightStyle sample_host sample_props = \<lparr>frame_top = Fin 60, frame_height = Fin 30\<rparr>
   \<and> map isSelected (render_rows sample_props ((initial_state sample_props)\<lparr>selectedIndex := Fin 2\<rparr>))
       = [False, False, True]
   \<and> length (filter isSelected
        (render_rows sample_props ((initial_state sample_props)\<lparr>selectedIndex := Fin 2\<rparr>))) = 1"
proof -
  have wh: "wrapperHeight sample_host sample_props = Fin 150"
    by (simp add: wrapperHeight_def sample_props_def js_or_def js_truthy_def)
  have rows: "map isSelected
       (render_rows sample_props ((initial_state sample_props)\<lparr>selectedIndex := Fin 2\<rparr>))
       = [False, False, True]"
    by (simp add: render_rows_def renderItem_def sample_props_def js_strict_eq_def upt_rec)
  have hl: "highlightStyle sample_host sample_props = \<lparr>frame_top = Fin 60, frame_height = Fin 30\<rparr>"
    by (simp add: highlightStyle_def wh) (simp add: sample_props_def)
  note inst = highlight_of_selected_row [of sample_props
      "(initial_state sample_props)\<lparr>selectedIndex := Fin 2\<rparr>" sample_host]
  from inst have frame: "\<forall>W h k. wrapperHeight sample_host sample_props = Fin W
         \<and> itemHeight sample_props = Fin h \<and> k < length (data sample_props)
         \<longrightarrow> row_on_screen ((W - h) / 2) h (length (data sample_props)) k (of_nat k * h)
               = highlightStyle sample_host sample_props"
    by (elim conjE)
  have ih: "itemHeight sample_props = Fin 30" and len: "(2::nat) < length (data sample_props)"
    by (simp_all add: sample_props_def)
  from frame wh ih len
  have on_screen: "row_on_screen ((150 - 30) / 2) 30 (length (data sample_props)) 2 (of_nat 2 * 30)
       = highlightStyle sample_host sample_props"
    by blast
  from inst have count: "length (filter isSelected
        (render_rows sample_props ((initial_state sample_props)\<lparr>selectedIndex := Fin 2\<rparr>)))
      = (if \<exists>k < length (data sample_props).
              selectedIndex ((initial_state sample_props)\<lparr>selectedIndex := Fin 2\<rparr>) = Fin (of_nat k)
         then 1 else 0)"
    by (elim conjE)
  have "\<exists>k < length (data sample_props).
      selectedIndex ((initial_state sample_props)\<lparr>selectedIndex := Fin 2\<rparr>) = Fin (of_nat k)"
    using len by (intro exI [of _ 2]) simp
  with count have one: "length (filter isSelected
        (render_rows sample_props ((initial_state sample_props)\<lparr>selectedIndex := Fin 2\<rparr>))) = 1"
    by simp
  from wh ih len on_screen hl rows one show ?thesis by simp
qed

text \<open>
  The claim as first stated, that exactly one item is highlighted, fails for the empty
  list, which is the default of the \<open>data\<close> prop: nothing is rendered, so no row is
  highlighted.
\<close>

theorem highlight_of_selected_row_counterexample:
  "render_rows (sample_props\<lparr>data := []\<rparr>) (initial_state (sample_props\<lparr>data := []\<rparr>)) = []
   \<and> length (filter isSelected
        (render_rows (sample_props\<lparr>data := []\<rparr>) (initial_state (sample_props\<lparr>data := []\<rparr>))))
       \<noteq> 1"
  by (simp add: render_rows_def)

section \<open>Updates while dragging\<close>

lemma scrollFix2_False_any:
  "scrollFix2 H p sel e False s = Inr (s', fxs)
     \<Longrightarrow> filter is_ScrollTo fxs = [] \<and> (s' = s \<or> (\<exists>i. s' = s\<lparr>selectedIndex := i\<rparr>))"
  by (auto simp: scrollFix2_def Let_def split: option.splits if_splits)

lemma onScroll_outcome:
  "filter is_ScrollTo (snd (onScroll H p e s)) = []
   \<and> (fst (onScroll H p e s) = s \<or> (\<exists>i. fst (onScroll H p e s) = s\<lparr>selectedIndex := i\<rparr>))"
proof (cases "scrollFix2 H p (selectedIndex s) e False s")
  case (Inl err)
  then show ?thesis by (simp add: onScroll_def)
next
  case (Inr r)
  obtain s' fxs where r: "r = (s', fxs)" by (cases r)
  with Inr have "scrollFix2 H p (selectedIndex s) e False s = Inr (s', fxs)" by simp
  then have "filter is_ScrollTo fxs = [] \<and> (s' = s \<or> (\<exists>i. s' = s\<lparr>selectedIndex := i\<rparr>))"
    by (rule scrollFix2_False_any)
  with Inr r show ?thesis by (simp add: onScroll_def)
qed

lemma step_Scroll_outcome:
  "filter is_ScrollTo (snd (step Part_000 H p (Scroll e) s)) = []
   \<and> (fst (step Part_000 H p (Scroll e) s) = s
       \<or> (\<exists>i. fst (step Part_000 H p (Scroll e) s) = s\<lparr>selectedIndex := i\<rparr>))"
  using onScroll_outcome [of H p e s] by simp

lemma scrolling_events:
  assumes "fx \<in> set (snd (step rv H p ev s))" and "is_ScrollTo fx"
  shows "(\<exists>e'. ev = MomentumScrollEnd e') \<or> (\<exists>i. ev = TimerFire i)
         \<or> (\<exists>k. ev = Press k) \<or> ev = RunEffects"
proof (cases ev)
  case (Scroll e)
  have "filter is_ScrollTo (snd (onScroll H p e s)) = []"
    using onScroll_outcome [of H p e s] by simp
  then have "\<forall>x \<in> set (snd (onScroll H p e s)). \<not> is_ScrollTo x"
    by (simp add: filter_empty_conv)
  with assms Scroll show ?thesis by (auto split: if_splits)
qed (use assms in auto)

text \<open>
  Claim C10, as amended.  In the newer revision, under \<open>changeValueWhileDragging\<close> the
  \<open>onScroll\<close> handler handles every scroll frame by \<open>scrollFix(e, false)\<close>.  On that path
  nothing but \<open>selectedIndex\<close> may change and \<open>onValueChange\<close> may be called: no \<open>scrollTo\<close> is
  issued and \<open>isScrollTo\<close> keeps its value.  Of all the events, only the end-of-scroll ones
  (\<open>onMomentumScrollEnd\<close>, and the timeout set by \<open>onScrollEndDrag\<close>), a press on a row and
  the \<open>initialize\<close> effect can issue a \<open>scrollTo\<close>.
\<close>

theorem onScroll_never_scrolls:
  "(changeValueWhileDragging p \<longrightarrow> step Part_000 H p (Scroll e) s = onScroll H p e s)
   \<and> onScroll H p e s =
       (case scrollFix2 H p (selectedIndex s) e False s of
          Inl err \<Rightarrow> (s, [Uncaught err]) | Inr r \<Rightarrow> r)
   \<and> filter is_ScrollTo (snd (step Part_000 H p (Scroll e) s)) = []
   \<and> isScrollTo (fst (step Part_000 H p (Scroll e) s)) = isScrollTo s
   \<and> (fst (step Part_000 H p (Scroll e) s) = s
       \<or> (\<exists>i. fst (step Part_000 H p (Scroll e) s) = s\<lparr>selectedIndex := i\<rparr>))
   \<and> (\<forall>ev. (\<exists>fx \<in> set (snd (step Part_000 H p ev s)). is_ScrollTo fx)
         \<longrightarrow> (\<exists>e'. ev = MomentumScrollEnd e') \<or> (\<exists>i. ev = TimerFire i)
             \<or> (\<exists>k. ev = Press k) \<or> ev = RunEffects)"
proof -
  have handler: "changeValueWhileDragging p \<longrightarrow> step Part_000 H p (Scroll e) s = onScroll H p e s"
    by simp
  have body: "onScroll H p e s =
       (case scrollFix2 H p (selectedIndex s) e False s of
          Inl err \<Rightarrow> (s, [Uncaught err]) | Inr r \<Rightarrow> r)"
    by (simp add: onScroll_def)
  note out = step_Scroll_outcome [of H p e s]
  from out have flag: "isScrollTo (fst (step Part_000 H p (Scroll e) s)) = isScrollTo s"
    by (elim conjE disjE exE) simp_all
  have only: "\<forall>ev. (\<exists>fx \<in> set (snd (step Part_000 H p ev s)). is_ScrollTo fx)
         \<longrightarrow> (\<exists>e'. ev = MomentumScrollEnd e') \<or> (\<exists>i. ev = TimerFire i)
             \<or> (\<exists>k. ev = Press k) \<or> ev = RunEffects"
    using scrolling_events [of _ Part_000 H p _ s] by blast
  from handler body out flag only show ?thesis by blast
qed

theorem onScroll_never_scrolls_witness:
  "changeValueWhileDragging sample_props
   \<and> step Part_000 sample_host sample_props (Scroll (event_at (Fin 50)))
        (initial_state sample_props)
       = ((initial_state sample_props)\<lparr>selectedIndex := Fin 2\<rparr>,
          [ValueChange (Some ''c'') (Fin 2)])
   \<and> filter is_ScrollTo
        (snd (step Part_000 sample_host sample_props (Scroll (event_at (Fin 50)))
               (initial_state sample_props))) = []"
proof -
  have on: "changeValueWhileDragging sample_props" by (simp add: sample_props_def)
  have run: "onScroll sample_host sample_props (event_at (Fin 50)) (initial_state sample_props)
       = ((initial_state sample_props)\<lparr>selectedIndex := Fin 2\<rparr>,
          [ValueChange (Some ''c'') (Fin 2)])"
    by (simp add: onScroll_def scrollFix2_False call_onValueChange_def sample_props_def
          js_strict_eq_def initial_state_def constrainIndex_def js_max_def js_min_def)
  from on run
    onScroll_never_scrolls [of sample_props sample_host "event_at (Fin 50)"
      "initial_state sample_props"]
  show ?thesis by simp
qed

text \<open>
  The claim as first stated, that only the end-of-scroll handlers may move the scroll
  position, fails in the newer revision: the press handler of a row scrolls to that row
  through \<open>scrollToIndex\<close>.
\<close>

theorem onScroll_never_scrolls_counterexample:
  "step Part_000 sample_host sample_props (Press 1) (initial_state sample_props)
     = (initial_state sample_props, [ScrollTo (Fin 30) (Some True)])"
  by (simp add: scrollToIndex_def sView_scrollTo_def sample_props_def sample_host_def Let_def)

end
